theory Spec2Isabelle
  imports Main "HOL-Library.AList" "HOL-Library.List_Lexorder" "HOL-Library.Char_ord"
begin

section \<open>JavaScript values used by the model\<close>

text \<open>
  A thrown \<^verbatim>\<open>new Error(msg)\<close> is the value \<open>Error msg\<close>; a property access on
  \<^verbatim>\<open>undefined\<close> or \<^verbatim>\<open>null\<close> is \<open>TypeError\<close>. A function that may throw returns
  \<open>error + 'a\<close>, with \<open>Inl\<close> for the exception.
\<close>

datatype error = Error string | TypeError

text \<open>
  Property names of a JavaScript object are strings. A note number used as a property
  name is converted by \<^verbatim>\<open>ToString\<close>: its decimal numeral (for the integers below
  \<open>10\<^sup>2\<^sup>1\<close>, which covers every MIDI note number). The reverse conversion
  \<^verbatim>\<open>ToNumber\<close> happens where such a key meets an arithmetic or relational operator
  (\<^verbatim>\<open>noteNum >= 60\<close>, \<^verbatim>\<open>noteNum % 12\<close>); on a string of decimal digits it is the
  number the digits denote. Only keys written by \<^verbatim>\<open>noteOn\<close> ever reach it.
\<close>

definition digit_char :: "nat \<Rightarrow> char" where
  "digit_char d = char_of (48 + d)"

definition digit_val :: "char \<Rightarrow> nat" where
  "digit_val c = of_char c - 48"

function toString :: "nat \<Rightarrow> string" where
  "toString n = (if n < 10 then [digit_char n] else toString (n div 10) @ [digit_char (n mod 10)])"
  by pat_completeness auto
termination
  by (relation "measure id") auto

declare toString.simps [simp del]

definition toNumber :: "string \<Rightarrow> nat" where
  "toNumber s = foldl (\<lambda>acc c. 10 * acc + digit_val c) 0 s"

section \<open>Chord: the set of sounding notes\<close>

text \<open>
  \<^verbatim>\<open>this._notes\<close> is a plain object used as a dictionary from note number to
  \<^verbatim>\<open>true\<close>. It is modelled as an association list keyed by the note number;
  \<^verbatim>\<open>_notes[number]\<close> is \<open>map_of\<close>, the assignment is \<open>AList.update\<close> and
  \<^verbatim>\<open>delete\<close> is \<open>AList.delete\<close>. \<^verbatim>\<open>this.trigger(...)\<close> comes from the MicroEvent
  mixin; the events a call fires are returned with its result.
\<close>

record chord =
  chord_notes :: "(nat \<times> bool) list"

datatype event = Trigger string string nat

definition Chord :: chord where
  "Chord = \<lparr>chord_notes = []\<rparr>"

definition noteOn :: "nat \<Rightarrow> chord \<Rightarrow> bool \<times> event list \<times> chord" where
  "noteOn number c =
     (let changed = (map_of (chord_notes c) number \<noteq> Some True);
          c' = c\<lparr>chord_notes := AList.update number True (chord_notes c)\<rparr>
      in (changed, (if changed then [Trigger ''change'' ''on'' number] else []), c'))"

definition noteOff :: "nat \<Rightarrow> chord \<Rightarrow> bool \<times> event list \<times> chord" where
  "noteOff number c =
     (let changed = (map_of (chord_notes c) number = Some True);
          c' = c\<lparr>chord_notes := AList.delete number (chord_notes c)\<rparr>
      in (changed, (if changed then [Trigger ''change'' ''off'' number] else []), c'))"

definition isNoteOn :: "nat \<Rightarrow> chord \<Rightarrow> bool" where
  "isNoteOn number c = (case map_of (chord_notes c) number of Some True \<Rightarrow> True | _ \<Rightarrow> False)"

text \<open>
  The own enumerable property names of \<^verbatim>\<open>_notes\<close>, as \<^verbatim>\<open>for(note_num in _notes)\<close>
  with the \<^verbatim>\<open>hasOwnProperty\<close> filter visits them: the keys that are integers come
  in ascending numeric order, each as a string. (The callers sort the keys again or
  only ask whether some key passes a test.)
\<close>

definition ownKeys :: "chord \<Rightarrow> string list" where
  "ownKeys c = map toString (sort (map fst (chord_notes c)))"

text \<open>
  \<^verbatim>\<open>notes_sorted.sort()\<close> is called without a comparison function: the elements (here
  already strings) are ordered by their sequences of code units, which is the
  lexicographic order on \<open>string\<close> over the character codes.
\<close>

definition getSortedNotes :: "chord \<Rightarrow> string list" where
  "getSortedNotes c = sort (ownKeys c)"

text \<open>
  A clef argument is a string or is left out (\<open>None\<close>, \<^verbatim>\<open>undefined\<close>);
  \<^verbatim>\<open>if(clef)\<close> is false for \<^verbatim>\<open>undefined\<close> and for the empty string.
\<close>

definition truthy :: "string option \<Rightarrow> bool" where
  "truthy clef = (case clef of None \<Rightarrow> False | Some s \<Rightarrow> s \<noteq> [])"

definition noteNumBelongsToClef :: "nat \<Rightarrow> string option \<Rightarrow> error + bool" where
  "noteNumBelongsToClef noteNum clef =
     (if clef = Some ''treble'' then (if noteNum \<ge> 60 then Inr True else Inr False)
      else if clef = Some ''bass'' then (if noteNum < 60 then Inr True else Inr False)
      else Inl (Error ''invalid clef''))"

text \<open>
  The loop of \<^verbatim>\<open>mapNotes\<close> over \<^verbatim>\<open>notes_sorted\<close>, with its two variables
  \<^verbatim>\<open>wanted\<close> and \<^verbatim>\<open>mapped_notes\<close>; a throw of the clef test leaves the loop.
\<close>

fun mapNotes_loop ::
  "(string \<Rightarrow> 'a) \<Rightarrow> string option \<Rightarrow> string list \<Rightarrow> bool \<Rightarrow> 'a list \<Rightarrow> error + 'a list" where
  "mapNotes_loop callback clef [] wanted mapped_notes = Inr mapped_notes"
| "mapNotes_loop callback clef (note_num # rest) wanted mapped_notes =
     (case (if truthy clef then noteNumBelongsToClef (toNumber note_num) clef else Inr wanted) of
        Inl e \<Rightarrow> Inl e
      | Inr w \<Rightarrow> mapNotes_loop callback clef rest w
                  (if w then mapped_notes @ [callback note_num] else mapped_notes))"

definition mapNotes :: "(string \<Rightarrow> 'a) \<Rightarrow> string option \<Rightarrow> chord \<Rightarrow> error + 'a list" where
  "mapNotes callback clef c = mapNotes_loop callback clef (getSortedNotes c) True []"

fun hasNotes_loop :: "string option \<Rightarrow> string list \<Rightarrow> error + bool" where
  "hasNotes_loop clef [] = Inr False"
| "hasNotes_loop clef (note_num # rest) =
     (if truthy clef then
        (case noteNumBelongsToClef (toNumber note_num) clef of
           Inl e \<Rightarrow> Inl e
         | Inr b \<Rightarrow> if b then Inr True else hasNotes_loop clef rest)
      else Inr True)"

definition hasNotes :: "string option \<Rightarrow> chord \<Rightarrow> error + bool" where
  "hasNotes clef c = hasNotes_loop clef (ownKeys c)"

definition getNoteNumbers :: "string option \<Rightarrow> chord \<Rightarrow> error + string list" where
  "getNoteNumbers clef c = mapNotes (\<lambda>noteNum. noteNum) clef c"

definition getNotes :: "string option \<Rightarrow> chord \<Rightarrow> error + string list" where
  "getNotes clef c = getNoteNumbers clef c"

record pitch =
  pitchClass :: nat
  octave :: int

definition getNotePitches :: "string option \<Rightarrow> chord \<Rightarrow> error + pitch list" where
  "getNotePitches clef c =
     mapNotes (\<lambda>noteNum. \<lparr>pitchClass = toNumber noteNum mod 12,
                           octave = int (toNumber noteNum div 12) - 1\<rparr>) clef c"

text \<open>A caller's sequence of \<^verbatim>\<open>noteOn\<close>/\<^verbatim>\<open>noteOff\<close> commands on one chord.\<close>

datatype command = NoteOn nat | NoteOff nat

fun command_id :: "command \<Rightarrow> nat" where
  "command_id (NoteOn n) = n"
| "command_id (NoteOff n) = n"

fun call :: "command \<Rightarrow> chord \<Rightarrow> bool \<times> event list \<times> chord" where
  "call (NoteOn n) c = noteOn n c"
| "call (NoteOff n) c = noteOff n c"

text \<open>
  \<open>run cmds c\<close> makes the calls in order and gives the return value of each call, the
  events fired and the chord at the end.
\<close>

fun run :: "command list \<Rightarrow> chord \<Rightarrow> bool list \<times> event list \<times> chord" where
  "run [] c = ([], [], c)"
| "run (cmd # cmds) c =
     (case call cmd c of (changed, evs, c') \<Rightarrow>
        (case run cmds c' of (rs, evs', c'') \<Rightarrow> (changed # rs, evs @ evs', c'')))"

definition final :: "command list \<Rightarrow> chord" where
  "final cmds = snd (snd (run cmds Chord))"

section \<open>StaveNotater: which annotation is drawn for which chord\<close>

text \<open>
  The analysis settings (\<^verbatim>\<open>analyzeConfig\<close>): a flag per kind of annotation, read
  by their truth value, and the tempo of the metronome mark (absent when not set).
\<close>

record analyze_mode =
  scale_degrees :: bool
  solfege :: bool
  note_names :: bool
  helmholtz :: bool
  intervals :: bool
  roman_numerals :: bool

record analyze_config =
  enabled :: bool
  mode :: analyze_mode
  tempo :: "nat option"

text \<open>
  The stave is a collaborator; the notater reads its start position, its top and
  bottom lines and whether it is the first bar. Canvas coordinates are taken to be
  integers.
\<close>

record stave =
  getStartX :: int
  getTopY :: int
  getBottomY :: int
  isFirstBar :: bool

text \<open>
  The \<^verbatim>\<open>config\<close> object handed to a notater: a property that the object does not
  have is \<open>None\<close>. The key signature is a collaborator of type \<open>'k\<close>.
\<close>

record 'k notater_config =
  config_stave :: "stave option"
  config_keySignature :: "'k option"
  config_analyzeConfig :: "analyze_config option"
  config_chord :: "chord option"

text \<open>
  A notater is an instance of one of the two subclasses; \<open>proto\<close> records which
  prototype it has. The other fields are the ones \<^verbatim>\<open>initConfig\<close> copies.
\<close>

datatype notater_class = TrebleStaveNotater | BassStaveNotater

record 'k notater =
  proto :: notater_class
  stave :: stave
  keySignature :: 'k
  analyzeConfig :: analyze_config
  chord :: "chord option"

definition margin_top :: int where
  "margin_top = 25"

definition margin_bottom :: int where
  "margin_bottom = 25"

definition initConfig :: "notater_class \<Rightarrow> 'k notater_config \<Rightarrow> error + 'k notater" where
  "initConfig cls config =
     (case config_stave config of
        None \<Rightarrow> Inl (Error ''missing required config property: stave'')
      | Some st \<Rightarrow>
     (case config_keySignature config of
        None \<Rightarrow> Inl (Error ''missing required config property: keySignature'')
      | Some ks \<Rightarrow>
     (case config_analyzeConfig config of
        None \<Rightarrow> Inl (Error ''missing required config property: analyzeConfig'')
      | Some ac \<Rightarrow>
          Inr \<lparr>proto = cls, stave = st, keySignature = ks, analyzeConfig = ac,
               chord = config_chord config\<rparr>)))"

definition init :: "notater_class \<Rightarrow> 'k notater_config \<Rightarrow> error + 'k notater" where
  "init cls config = initConfig cls config"

text \<open>The factory \<^verbatim>\<open>StaveNotater.create(clef, config)\<close>.\<close>

definition create :: "string option \<Rightarrow> 'k notater_config \<Rightarrow> error + 'k notater" where
  "create clef config =
     (if clef = Some ''treble'' then init TrebleStaveNotater config
      else if clef = Some ''bass'' then init BassStaveNotater config
      else Inl (Error (''no such notater for clef: '' @
                  (case clef of None \<Rightarrow> ''undefined'' | Some s \<Rightarrow> s))))"

text \<open>
  The draw methods ask the analyzer (module \<^verbatim>\<open>app/util/analyze\<close>) for a label and
  write it on the canvas. What \<^verbatim>\<open>notate\<close> does is modelled by the list of draw
  methods it calls, each with its position.
\<close>

datatype draw_call =
    drawScaleDegree int int
  | drawSolfege int int
  | drawNoteName int int
  | drawHelmholtz int int
  | drawInterval int int
  | drawRoman int int
  | drawMetronomeMark int int
  | drawKeyName int int

definition getX :: "'k notater \<Rightarrow> int" where
  "getX n = getStartX (stave n) + 10"

definition getY :: "'k notater \<Rightarrow> int" where
  "getY n =
     (case proto n of
        TrebleStaveNotater \<Rightarrow> getTopY (stave n) - margin_top
      | BassStaveNotater \<Rightarrow> getBottomY (stave n) + margin_bottom)"

definition isAnalyzerEnabled :: "'k notater \<Rightarrow> bool" where
  "isAnalyzerEnabled n = enabled (analyzeConfig n)"

definition treble_notateChord :: "'k notater \<Rightarrow> error + draw_call list" where
  "treble_notateChord n =
     (let x = getX n; y = getY n in
      case chord n of
        None \<Rightarrow> Inl TypeError
      | Some c \<Rightarrow>
     (case getNoteNumbers None c of
        Inl e \<Rightarrow> Inl e
      | Inr notes \<Rightarrow>
          (let first_row = y; second_row = y + 25; m = mode (analyzeConfig n) in
           if length notes = 1 then
             Inr ((if scale_degrees m \<and> \<not> solfege m then [drawScaleDegree x first_row]
                   else if solfege m \<and> \<not> scale_degrees m then [drawSolfege x first_row]
                   else [])
                  @
                  (if note_names m \<and> \<not> helmholtz m then [drawNoteName x second_row]
                   else if helmholtz m \<and> \<not> note_names m then [drawHelmholtz x second_row]
                   else []))
           else Inr [])))"

definition bass_notateChord :: "'k notater \<Rightarrow> error + draw_call list" where
  "bass_notateChord n =
     (let x = getX n; y = getY n in
      case chord n of
        None \<Rightarrow> Inl TypeError
      | Some c \<Rightarrow>
     (case getNoteNumbers None c of
        Inl e \<Rightarrow> Inl e
      | Inr notes \<Rightarrow>
          (let num_notes = length notes; m = mode (analyzeConfig n) in
           if num_notes = 2 then
             (if intervals m then Inr [drawInterval x y] else Inr [])
           else if num_notes > 2 then
             (if roman_numerals m then Inr [drawRoman x y] else Inr [])
           else Inr [])))"

definition notateChord :: "'k notater \<Rightarrow> error + draw_call list" where
  "notateChord n =
     (case proto n of
        TrebleStaveNotater \<Rightarrow> treble_notateChord n
      | BassStaveNotater \<Rightarrow> bass_notateChord n)"

definition notateStave :: "'k notater \<Rightarrow> draw_call list" where
  "notateStave n =
     (let x = getX n; y = getY n in
      if isFirstBar (stave n) then
        (case proto n of
           TrebleStaveNotater \<Rightarrow> [drawMetronomeMark x y]
         | BassStaveNotater \<Rightarrow> [drawKeyName x y])
      else [])"

definition notate :: "'k notater \<Rightarrow> error + draw_call list" where
  "notate n =
     (let drawn = notateStave n in
      if isAnalyzerEnabled n then
        (case chord n of
           None \<Rightarrow> Inr drawn
         | Some c \<Rightarrow>
             (case notateChord n of Inl e \<Rightarrow> Inl e | Inr ds \<Rightarrow> Inr (drawn @ ds)))
      else Inr drawn)"

text \<open>
  The number of sounding notes each annotation is meant for: one for scale degree,
  solf\`ege, note name and Helmholtz name, two for an interval, more than two for a
  Roman numeral. The marks of \<^verbatim>\<open>notateStave\<close> do not depend on the chord.
\<close>

fun annotation_arity :: "draw_call \<Rightarrow> nat \<Rightarrow> bool" where
  "annotation_arity (drawScaleDegree x y) k = (k = 1)"
| "annotation_arity (drawSolfege x y) k = (k = 1)"
| "annotation_arity (drawNoteName x y) k = (k = 1)"
| "annotation_arity (drawHelmholtz x y) k = (k = 1)"
| "annotation_arity (drawInterval x y) k = (k = 2)"
| "annotation_arity (drawRoman x y) k = (k > 2)"
| "annotation_arity (drawMetronomeMark x y) k = True"
| "annotation_arity (drawKeyName x y) k = True"

section \<open>Config: the read-only configuration\<close>

text \<open>
  The configuration is a graph of JavaScript objects. \<^verbatim>\<open>Config.get\<close> returns what it
  finds at the end of the path, and for an object that is the stored object itself, not
  a copy; so objects live in a store, at addresses, and a value is \<^verbatim>\<open>undefined\<close> or
  \<^verbatim>\<open>null\<close> (on which \<^verbatim>\<open>config.hasOwnProperty\<close> is a TypeError), a number or boolean
  (\<open>Prim\<close>, which has no own property), or the address of an object (\<open>Ref\<close>: a plain
  object, and an array or a string with its indices and \<^verbatim>\<open>length\<close>). An object is the
  list of its own properties. The configuration modules that fill \<^verbatim>\<open>__config\<close> are
  data files; the store is a parameter here.
\<close>

type_synonym addr = nat

datatype 'a config_value =
    Undefined
  | Prim 'a
  | Ref addr

type_synonym 'a properties = "(string \<times> 'a config_value) list"

type_synonym 'a store = "(addr \<times> 'a properties) list"

text \<open>
  The argument of \<^verbatim>\<open>get\<close>: a string, or a value of another type, of which only
  the text that \<^verbatim>\<open>"..." + key\<close> gives is kept.
\<close>

datatype key_arg = StringKey string | OtherKey string

text \<open>\<^verbatim>\<open>key.split('.')\<close>: the segments between the dots, empty segments included.\<close>

fun split_dot :: "string \<Rightarrow> string list" where
  "split_dot [] = [[]]"
| "split_dot (ch # cs) =
     (if ch = CHR ''.'' then [] # split_dot cs
      else (case split_dot cs of [] \<Rightarrow> [[ch]] | w # ws \<Rightarrow> (ch # w) # ws))"

text \<open>
  The body of \<^verbatim>\<open>_.each(key.split('.'), function(value) {...})\<close>: the local
  variable \<^verbatim>\<open>config\<close> walks down the graph, one segment at a time. (An address
  without an object does not occur; it is treated as \<^verbatim>\<open>undefined\<close>.)
\<close>

fun get_each ::
  "'a store \<Rightarrow> string \<Rightarrow> string list \<Rightarrow> 'a config_value \<Rightarrow> error + 'a config_value" where
  "get_each st key [] config = Inr config"
| "get_each st key (v # rest) config =
     (case config of
        Undefined \<Rightarrow> Inl TypeError
      | Prim x \<Rightarrow> Inl (Error (''Key not found: '' @ key))
      | Ref a \<Rightarrow>
          (case map_of st a of
             None \<Rightarrow> Inl TypeError
           | Some props \<Rightarrow>
               (case map_of props v of
                  None \<Rightarrow> Inl (Error (''Key not found: '' @ key))
                | Some config' \<Rightarrow> get_each st key rest config')))"

text \<open>
  The state that \<^verbatim>\<open>Config\<close> works on: the objects in the store and the field
  \<^verbatim>\<open>__config\<close>. Each method returns its result (or the error it throws) and the
  state it leaves.
\<close>

record 'a config_object =
  objects :: "'a store"
  private_config :: "'a config_value"

definition get :: "key_arg \<Rightarrow> 'a config_object \<Rightarrow> (error + 'a config_value) \<times> 'a config_object" where
  "get key this =
     (case key of
        OtherKey txt \<Rightarrow> (Inl (Error (''Config key must be a string: '' @ txt)), this)
      | StringKey k \<Rightarrow> (get_each (objects this) k (split_dot k) (private_config this), this))"







text \<open>
  What the specification says a lookup is: the value at the end of the path when every
  segment names a property of the value reached so far, and nothing otherwise.
\<close>

fun path_value :: "'a store \<Rightarrow> 'a config_value \<Rightarrow> string list \<Rightarrow> 'a config_value option" where
  "path_value st v [] = Some v"
| "path_value st (Ref a) (seg # segs) =
     (case map_of st a of
        None \<Rightarrow> None
      | Some props \<Rightarrow>
          (case map_of props seg of None \<Rightarrow> None | Some v' \<Rightarrow> path_value st v' segs))"
| "path_value st (Prim x) (seg # segs) = None"
| "path_value st Undefined (seg # segs) = None"


section \<open>PianoKey: the on-screen key\<close>


































section \<open>Auxiliary notions for the statements\<close>

text \<open>The calls of a command sequence that concern one identifier.\<close>

definition calls_for :: "nat \<Rightarrow> command list \<Rightarrow> command list" where
  "calls_for i cmds = filter (\<lambda>cmd. command_id cmd = i) cmds"

text \<open>
  The number of calls for an identifier that changed the chord: those that returned
  \<^verbatim>\<open>true\<close>, given the commands and the values they returned.
\<close>

definition changes_for :: "nat \<Rightarrow> command list \<Rightarrow> bool list \<Rightarrow> nat" where
  "changes_for i cmds rs =
     length (filter (\<lambda>p. command_id (fst p) = i \<and> snd p) (zip cmds rs))"

text \<open>Every property of the dictionary holds \<^verbatim>\<open>true\<close>.\<close>

definition all_true :: "(nat \<times> bool) list \<Rightarrow> bool" where
  "all_true al = list_all snd al"

text \<open>The most recent call of a sequence that concerns an identifier, and whether a
  call is a \<^verbatim>\<open>noteOn\<close>.\<close>

fun turns_on :: "command \<Rightarrow> bool" where
  "turns_on (NoteOn n) = True"
| "turns_on (NoteOff n) = False"

definition last_call_for :: "nat \<Rightarrow> command list \<Rightarrow> command option" where
  "last_call_for i cmds = (case rev (calls_for i cmds) of [] \<Rightarrow> None | cmd # earlier \<Rightarrow> Some cmd)"

text \<open>
  A dictionary as the commands can build it: every property holds \<^verbatim>\<open>true\<close> and no
  key occurs twice.
\<close>

definition wf_notes :: "(nat \<times> bool) list \<Rightarrow> bool" where
  "wf_notes al = (all_true al \<and> distinct (map fst al))"

text \<open>A small store in the shape of the application's configuration.\<close>

definition example_config :: "bool config_object" where
  "example_config =
     \<lparr>objects =
        [(0, [(''general'', Ref 1), (''analysis'', Ref 3)]),
         (1, [(''analysisSettings'', Ref 2)]),
         (2, [(''enabled'', Prim True)]),
         (3, [(''hChords'', Ref 4)]),
         (4, [])],
      private_config = Ref 0\<rparr>"


text \<open>A notater with analysis switched on, for the chord that commands build.\<close>

definition example_notater :: "notater_class \<Rightarrow> command list \<Rightarrow> unit notater" where
  "example_notater cls cmds =
     \<lparr>proto = cls,
      stave = \<lparr>getStartX = 5, getTopY = 40, getBottomY = 80, isFirstBar = True\<rparr>,
      keySignature = (),
      analyzeConfig = \<lparr>enabled = True,
        mode = \<lparr>scale_degrees = True, solfege = False, note_names = False, helmholtz = True,
                intervals = True, roman_numerals = True\<rparr>,
        tempo = None\<rparr>,
      chord = Some (final cmds)\<rparr>"



section \<open>Properties of the chord\<close>

subsection \<open>Decimal numerals\<close>

lemma digit_val_digit_char: "d < 10 \<Longrightarrow> digit_val (digit_char d) = d"
  by (simp add: digit_val_def digit_char_def)

lemma toNumber_snoc: "toNumber (s @ [ch]) = 10 * toNumber s + digit_val ch"
  by (simp add: toNumber_def)

lemma toNumber_toString: "toNumber (toString n) = n"
proof (induction n rule: toString.induct)
  case (1 n)
  show ?case
  proof (cases "n < 10")
    case True
    then show ?thesis
      by (subst toString.simps) (simp add: toNumber_def digit_val_digit_char)
  next
    case False
    then have "toNumber (toString (n div 10)) = n div 10"
      using "1.IH" by simp
    with False show ?thesis
      by (subst toString.simps) (simp add: toNumber_snoc digit_val_digit_char)
  qed
qed

lemma inj_toString: "inj toString"
  by (rule inj_on_inverseI [where g = toNumber]) (rule toNumber_toString)

subsection \<open>The dictionary of a chord\<close>

lemma set_getSortedNotes: "set (getSortedNotes c) = toString ` fst ` set (chord_notes c)"
  by (auto simp: getSortedNotes_def ownKeys_def)

lemma length_getSortedNotes: "length (getSortedNotes c) = length (chord_notes c)"
  by (simp add: getSortedNotes_def ownKeys_def)

lemma distinct_getSortedNotes:
  "distinct (map fst (chord_notes c)) \<Longrightarrow> distinct (getSortedNotes c)"
proof -
  assume "distinct (map fst (chord_notes c))"
  then have "distinct (sort (map fst (chord_notes c)))"
    by simp
  then have "distinct (map toString (sort (map fst (chord_notes c))))"
    using inj_toString by (simp only: distinct_map) (auto intro: inj_on_subset)
  then show ?thesis
    by (simp add: getSortedNotes_def ownKeys_def)
qed

lemma isNoteOn_noteOn: "isNoteOn m (snd (snd (noteOn n c))) = (m = n \<or> isNoteOn m c)"
  by (simp add: noteOn_def isNoteOn_def Let_def update_conv')

lemma isNoteOn_noteOff: "isNoteOn m (snd (snd (noteOff n c))) = (m \<noteq> n \<and> isNoteOn m c)"
  by (simp add: noteOff_def isNoteOn_def Let_def delete_conv')

lemma changed_noteOn: "fst (noteOn n c) = (\<not> isNoteOn n c)"
  by (simp add: noteOn_def isNoteOn_def Let_def split: option.splits bool.splits)

lemma changed_noteOff: "fst (noteOff n c) = isNoteOn n c"
  by (simp add: noteOff_def isNoteOn_def Let_def split: option.splits bool.splits)

lemma fired_noteOn:
  "fst (snd (noteOn n c)) = (if fst (noteOn n c) then [Trigger ''change'' ''on'' n] else [])"
  by (simp add: noteOn_def Let_def)

lemma fired_noteOff:
  "fst (snd (noteOff n c)) = (if fst (noteOff n c) then [Trigger ''change'' ''off'' n] else [])"
  by (simp add: noteOff_def Let_def)

lemma noteOn_again: "noteOn n (snd (snd (noteOn n c))) = (False, [], snd (snd (noteOn n c)))"
  by (simp add: noteOn_def Let_def update_conv')

lemma noteOff_again: "noteOff n (snd (snd (noteOff n c))) = (False, [], snd (snd (noteOff n c)))"
  by (simp add: noteOff_def Let_def delete_conv' delete_idem)

lemma isNoteOn_key: "isNoteOn n c \<Longrightarrow> n \<in> fst ` set (chord_notes c)"
  by (auto simp: isNoteOn_def split: option.splits bool.splits dest: map_of_SomeD intro: rev_image_eqI)

subsection \<open>Chords reached by commands\<close>


lemma all_true_update: "all_true al \<Longrightarrow> all_true (AList.update k True al)"
  by (induction al) (auto simp: all_true_def)

lemma all_true_delete: "all_true al \<Longrightarrow> all_true (AList.delete k al)"
  by (auto simp: all_true_def AList.delete_eq list_all_iff)

lemma wf_notes_call: "wf_notes (chord_notes c) \<Longrightarrow> wf_notes (chord_notes (snd (snd (call cmd c))))"
  by (cases cmd)
    (simp_all add: wf_notes_def noteOn_def noteOff_def Let_def all_true_update all_true_delete
      distinct_update distinct_delete)

lemma wf_notes_run: "wf_notes (chord_notes c) \<Longrightarrow> wf_notes (chord_notes (snd (snd (run cmds c))))"
proof (induction cmds arbitrary: c)
  case Nil
  then show ?case by simp
next
  case (Cons cmd cmds)
  from Cons.prems have "wf_notes (chord_notes (snd (snd (call cmd c))))"
    by (rule wf_notes_call)
  then have "wf_notes (chord_notes (snd (snd (run cmds (snd (snd (call cmd c)))))))"
    by (rule Cons.IH)
  then show ?case
    by (auto split: prod.splits)
qed

lemma wf_notes_final: "wf_notes (chord_notes (final cmds))"
  unfolding final_def by (rule wf_notes_run) (simp add: Chord_def wf_notes_def all_true_def)

lemma all_true_isNoteOn:
  assumes "all_true (chord_notes c)"
  shows "isNoteOn n c \<longleftrightarrow> n \<in> fst ` set (chord_notes c)"
proof (cases "map_of (chord_notes c) n")
  case None
  then have "n \<notin> fst ` set (chord_notes c)" by (simp add: map_of_eq_None_iff)
  with None show ?thesis by (simp add: isNoteOn_def)
next
  case (Some b)
  then have "(n, b) \<in> set (chord_notes c)" by (rule map_of_SomeD)
  with assms have "b" and "n \<in> fst ` set (chord_notes c)"
    by (force simp: all_true_def list_all_iff)+
  with Some show ?thesis by (simp add: isNoteOn_def)
qed

lemma keys_final: "fst ` set (chord_notes (final cmds)) = {n. isNoteOn n (final cmds)}"
  using all_true_isNoteOn [of "final cmds"] wf_notes_final [of cmds]
  by (auto simp: wf_notes_def)

subsection \<open>The loop of mapNotes\<close>

lemma mapNotes_loop_unrestricted:
  "\<not> truthy clef \<Longrightarrow> mapNotes_loop f clef xs True acc = Inr (acc @ map f xs)"
  by (induction xs arbitrary: acc) auto

lemma mapNotes_loop_treble:
  "mapNotes_loop f (Some ''treble'') xs w acc =
     Inr (acc @ map f (filter (\<lambda>s. 60 \<le> toNumber s) xs))"
  by (induction xs arbitrary: w acc) (auto simp: truthy_def noteNumBelongsToClef_def)

lemma mapNotes_loop_bass:
  "mapNotes_loop f (Some ''bass'') xs w acc =
     Inr (acc @ map f (filter (\<lambda>s. toNumber s < 60) xs))"
  by (induction xs arbitrary: w acc) (auto simp: truthy_def noteNumBelongsToClef_def)

lemma mapNotes_loop_invalid:
  "truthy clef \<Longrightarrow> clef \<noteq> Some ''treble'' \<Longrightarrow> clef \<noteq> Some ''bass'' \<Longrightarrow> xs \<noteq> [] \<Longrightarrow>
   mapNotes_loop f clef xs w acc = Inl (Error ''invalid clef'')"
  by (cases xs) (auto simp: noteNumBelongsToClef_def)

lemma getNoteNumbers_None: "getNoteNumbers None c = Inr (getSortedNotes c)"
  by (simp add: getNoteNumbers_def mapNotes_def mapNotes_loop_unrestricted truthy_def)

lemma getNoteNumbers_treble:
  "getNoteNumbers (Some ''treble'') c = Inr (filter (\<lambda>s. 60 \<le> toNumber s) (getSortedNotes c))"
  by (simp add: getNoteNumbers_def mapNotes_def mapNotes_loop_treble)

lemma getNoteNumbers_bass:
  "getNoteNumbers (Some ''bass'') c = Inr (filter (\<lambda>s. toNumber s < 60) (getSortedNotes c))"
  by (simp add: getNoteNumbers_def mapNotes_def mapNotes_loop_bass)

text \<open>
  Claim C1 (sorted notes are in numeric order). The keys are sorted as text, not as
  numbers: after \<^verbatim>\<open>noteOn(9)\<close>, \<^verbatim>\<open>noteOn(60)\<close>, \<^verbatim>\<open>noteOn(2)\<close> the method
  returns \<^verbatim>\<open>["2", "60", "9"]\<close>, whose numeric values 2, 60, 9 are not in
  non-decreasing order.
\<close>

theorem getSortedNotes_orders_as_text:
  "getSortedNotes (final [NoteOn 9, NoteOn 60, NoteOn 2]) = [''2'', ''60'', ''9'']
   \<and> map toNumber (getSortedNotes (final [NoteOn 9, NoteOn 60, NoteOn 2])) = [2, 60, 9]
   \<and> \<not> sorted (map toNumber (getSortedNotes (final [NoteOn 9, NoteOn 60, NoteOn 2])))"
  by code_simp

lemma changes_for_Cons:
  "changes_for i (cmd # cmds) (r # rs) =
     (if command_id cmd = i \<and> r then 1 else 0) + changes_for i cmds rs"
  by (simp add: changes_for_def)

lemma isNoteOn_call:
  "isNoteOn i (snd (snd (call cmd c))) = (isNoteOn i c \<noteq> (command_id cmd = i \<and> fst (call cmd c)))"
  by (cases cmd) (auto simp: isNoteOn_noteOn isNoteOn_noteOff changed_noteOn changed_noteOff)

lemma run_parity:
  "isNoteOn i (snd (snd (run cmds c))) =
     (isNoteOn i c \<noteq> odd (changes_for i cmds (fst (run cmds c))))"
proof (induction cmds arbitrary: c)
  case Nil
  show ?case by (simp add: changes_for_def)
next
  case (Cons cmd cmds)
  obtain changed evs c' where step: "call cmd c = (changed, evs, c')"
    by (cases "call cmd c") auto
  obtain rs evs' c'' where rest: "run cmds c' = (rs, evs', c'')"
    by (cases "run cmds c'") auto
  have "isNoteOn i c'' = (isNoteOn i c' \<noteq> odd (changes_for i cmds rs))"
    using Cons.IH [of c'] rest by simp
  moreover have "isNoteOn i c' = (isNoteOn i c \<noteq> (command_id cmd = i \<and> changed))"
    using isNoteOn_call [of i cmd c] step by simp
  ultimately show ?case
    using step rest by (auto simp: changes_for_Cons)
qed

text \<open>
  Claim C2 as stated fails: after two calls \<^verbatim>\<open>noteOn(5)\<close> the note is on, while the
  number of calls made for 5 is even.
\<close>

theorem isNoteOn_call_parity_counterexample:
  "isNoteOn 5 (final [NoteOn 5, NoteOn 5])
     \<noteq> odd (length (calls_for 5 [NoteOn 5, NoteOn 5]))"
  by code_simp

lemma last_call_for_Nil: "last_call_for i [] = None"
  by (simp add: last_call_for_def calls_for_def)

lemma last_call_for_Cons:
  "last_call_for i (cmd # cmds) =
     (case last_call_for i cmds of
        Some later \<Rightarrow> Some later
      | None \<Rightarrow> if command_id cmd = i then Some cmd else None)"
  by (simp add: last_call_for_def calls_for_def split: list.splits)

lemma isNoteOn_call_turns_on:
  "isNoteOn i (snd (snd (call cmd c))) = (if command_id cmd = i then turns_on cmd else isNoteOn i c)"
  by (cases cmd) (auto simp: isNoteOn_noteOn isNoteOn_noteOff)

lemma run_last_call:
  "isNoteOn i (snd (snd (run cmds c))) =
     (case last_call_for i cmds of None \<Rightarrow> isNoteOn i c | Some cmd \<Rightarrow> turns_on cmd)"
proof (induction cmds arbitrary: c)
  case Nil
  show ?case by (simp add: last_call_for_Nil)
next
  case (Cons cmd cmds)
  have "isNoteOn i (snd (snd (run (cmd # cmds) c)))
      = isNoteOn i (snd (snd (run cmds (snd (snd (call cmd c))))))"
    by (simp split: prod.splits)
  also have "\<dots> = (case last_call_for i cmds of
        None \<Rightarrow> isNoteOn i (snd (snd (call cmd c))) | Some later \<Rightarrow> turns_on later)"
    by (rule Cons.IH)
  finally show ?case
    by (simp add: last_call_for_Cons isNoteOn_call_turns_on split: option.splits)
qed

text \<open>
  Claim C2, amended. After any sequence of commands on a new chord, a note is on exactly
  when the number of calls for it that changed the chord (returned \<^verbatim>\<open>true\<close>) is odd,
  which is exactly when the most recent call for it was a \<^verbatim>\<open>noteOn\<close>; and in any
  chord a second \<^verbatim>\<open>noteOn\<close> of the same note right after the first returns
  \<^verbatim>\<open>false\<close>, as does a second \<^verbatim>\<open>noteOff\<close>.
\<close>

theorem isNoteOn_parity_of_changes:
  "isNoteOn i (final cmds) = odd (changes_for i cmds (fst (run cmds Chord)))
   \<and> isNoteOn i (final cmds)
       = (case last_call_for i cmds of None \<Rightarrow> False | Some cmd \<Rightarrow> turns_on cmd)
   \<and> fst (noteOn i (snd (snd (noteOn i c)))) = False
   \<and> fst (noteOff i (snd (snd (noteOff i c)))) = False"
proof -
  have off: "\<not> isNoteOn i Chord"
    by (simp add: isNoteOn_def Chord_def)
  then have "isNoteOn i (final cmds) = odd (changes_for i cmds (fst (run cmds Chord)))"
    unfolding final_def using run_parity [of i cmds Chord] by simp
  moreover have "isNoteOn i (final cmds)
       = (case last_call_for i cmds of None \<Rightarrow> False | Some cmd \<Rightarrow> turns_on cmd)"
    unfolding final_def using run_last_call [of i cmds Chord] off
    by (simp split: option.splits)
  ultimately show ?thesis
    by (simp add: noteOn_again noteOff_again)
qed

theorem isNoteOn_parity_of_changes_witness:
  "isNoteOn 5 (final [NoteOn 5, NoteOn 7, NoteOn 5, NoteOff 7])
   \<and> changes_for 5 [NoteOn 5, NoteOn 7, NoteOn 5, NoteOff 7]
        (fst (run [NoteOn 5, NoteOn 7, NoteOn 5, NoteOff 7] Chord)) = 1
   \<and> last_call_for 5 [NoteOn 5, NoteOn 7, NoteOn 5, NoteOff 7] = Some (NoteOn 5)
   \<and> fst (run [NoteOn 5, NoteOn 7, NoteOn 5, NoteOff 7] Chord) = [True, True, False, True]"
proof -
  have e1: "changes_for 5 [NoteOn 5, NoteOn 7, NoteOn 5, NoteOff 7]
        (fst (run [NoteOn 5, NoteOn 7, NoteOn 5, NoteOff 7] Chord)) = 1"
    by code_simp
  have e2: "last_call_for 5 [NoteOn 5, NoteOn 7, NoteOn 5, NoteOff 7] = Some (NoteOn 5)"
    by code_simp
  have e3: "fst (run [NoteOn 5, NoteOn 7, NoteOn 5, NoteOff 7] Chord) = [True, True, False, True]"
    by code_simp
  from isNoteOn_parity_of_changes [of 5 "[NoteOn 5, NoteOn 7, NoteOn 5, NoteOff 7]"] e1
  have "isNoteOn 5 (final [NoteOn 5, NoteOn 7, NoteOn 5, NoteOff 7])"
    by simp
  with e1 e2 e3 show ?thesis
    by (intro conjI)
qed

text \<open>
  Claim C3. \<^verbatim>\<open>noteOn(i)\<close> leaves the note on, returns \<^verbatim>\<open>true\<close> exactly when it was
  not on before and fires \<^verbatim>\<open>('change', 'on', i)\<close> exactly then; doing it again returns
  \<^verbatim>\<open>false\<close>, fires nothing and leaves the chord as it is. \<^verbatim>\<open>noteOff(i)\<close> is
  symmetric.
\<close>

theorem noteOn_noteOff_report_change:
  "(case noteOn i c of (changed, fired, c') \<Rightarrow>
      isNoteOn i c' \<and> changed = (\<not> isNoteOn i c)
      \<and> fired = (if changed then [Trigger ''change'' ''on'' i] else [])
      \<and> noteOn i c' = (False, [], c'))
   \<and> (case noteOff i c of (changed, fired, c') \<Rightarrow>
      \<not> isNoteOn i c' \<and> changed = isNoteOn i c
      \<and> fired = (if changed then [Trigger ''change'' ''off'' i] else [])
      \<and> noteOff i c' = (False, [], c'))"
proof -
  obtain ch1 f1 c1 where on: "noteOn i c = (ch1, f1, c1)"
    by (cases "noteOn i c") auto
  obtain ch2 f2 c2 where off: "noteOff i c = (ch2, f2, c2)"
    by (cases "noteOff i c") auto
  have "isNoteOn i c1" "ch1 = (\<not> isNoteOn i c)"
    "f1 = (if ch1 then [Trigger ''change'' ''on'' i] else [])" "noteOn i c1 = (False, [], c1)"
    using isNoteOn_noteOn [of i i c] changed_noteOn [of i c] fired_noteOn [of i c]
      noteOn_again [of i c] on by simp_all
  moreover have "\<not> isNoteOn i c2" "ch2 = isNoteOn i c"
    "f2 = (if ch2 then [Trigger ''change'' ''off'' i] else [])" "noteOff i c2 = (False, [], c2)"
    using isNoteOn_noteOff [of i i c] changed_noteOff [of i c] fired_noteOff [of i c]
      noteOff_again [of i c] off by simp_all
  ultimately show ?thesis
    using on off by simp
qed

theorem noteOn_noteOff_report_change_witness:
  "noteOn 64 Chord = (True, [Trigger ''change'' ''on'' 64], final [NoteOn 64])
   \<and> isNoteOn 64 (final [NoteOn 64])
   \<and> noteOn 64 (final [NoteOn 64]) = (False, [], final [NoteOn 64])
   \<and> noteOff 64 (final [NoteOn 64]) = (True, [Trigger ''change'' ''off'' 64], Chord)
   \<and> noteOff 64 Chord = (False, [], Chord)"
proof -
  have e1: "noteOn 64 Chord = (True, [Trigger ''change'' ''on'' 64], final [NoteOn 64])"
    by (simp add: final_def noteOn_def Chord_def)
  have e2: "noteOff 64 (final [NoteOn 64]) = (True, [Trigger ''change'' ''off'' 64], Chord)"
    by (simp add: final_def noteOn_def noteOff_def Chord_def)
  from noteOn_noteOff_report_change [of 64 Chord] e1
  have w1: "isNoteOn 64 (final [NoteOn 64])"
    and w2: "noteOn 64 (final [NoteOn 64]) = (False, [], final [NoteOn 64])"
    by simp_all
  from noteOn_noteOff_report_change [of 64 "final [NoteOn 64]"] e2
  have w3: "noteOff 64 Chord = (False, [], Chord)"
    by simp
  show ?thesis
    by (intro conjI) (rule e1 w1 w2 e2 w3)+
qed

text \<open>
  Claim C4. For the chord after any sequence of commands, the lists for the clefs
  \<^verbatim>\<open>'bass'\<close> and \<^verbatim>\<open>'treble'\<close> are both returned, together they hold exactly the
  keys of the notes that are on, they share none, the treble list holds the notes from
  60 up and the bass list those below 60.
\<close>

theorem clef_lists_partition:
  "\<exists>bass treble every.
     getNoteNumbers (Some ''bass'') (final cmds) = Inr bass
     \<and> getNoteNumbers (Some ''treble'') (final cmds) = Inr treble
     \<and> getNoteNumbers None (final cmds) = Inr every
     \<and> set every = toString ` {n. isNoteOn n (final cmds)}
     \<and> set bass \<union> set treble = set every
     \<and> set bass \<inter> set treble = {}
     \<and> set treble = toString ` {n. isNoteOn n (final cmds) \<and> 60 \<le> n}
     \<and> set bass = toString ` {n. isNoteOn n (final cmds) \<and> n < 60}
     \<and> distinct every
     \<and> length bass + length treble = length every"
proof -
  let ?c = "final cmds"
  let ?every = "getSortedNotes ?c"
  let ?treble = "filter (\<lambda>s. 60 \<le> toNumber s) ?every"
  let ?bass = "filter (\<lambda>s. toNumber s < 60) ?every"
  have every: "set ?every = toString ` {n. isNoteOn n ?c}"
    by (simp add: set_getSortedNotes keys_final)
  have treble: "set ?treble = toString ` {n. isNoteOn n ?c \<and> 60 \<le> n}"
    using every by (auto simp: toNumber_toString)
  have bass: "set ?bass = toString ` {n. isNoteOn n ?c \<and> n < 60}"
    using every by (auto simp: toNumber_toString)
  have union: "set ?bass \<union> set ?treble = set ?every"
    by auto
  have disj: "set ?bass \<inter> set ?treble = {}"
    by auto
  have dist: "distinct ?every"
    using wf_notes_final [of cmds] by (simp add: wf_notes_def distinct_getSortedNotes)
  have "(\<lambda>s. 60 \<le> toNumber s) = (\<lambda>s. \<not> toNumber s < 60)"
    by (simp add: fun_eq_iff not_less)
  then have len: "length ?bass + length ?treble = length ?every"
    using sum_length_filter_compl [of "\<lambda>s. toNumber s < 60" ?every] by simp
  show ?thesis
    using getNoteNumbers_bass [of ?c] getNoteNumbers_treble [of ?c] getNoteNumbers_None [of ?c]
      every union disj treble bass dist len
    by blast
qed

theorem clef_lists_partition_witness:
  "getNoteNumbers (Some ''bass'') (final [NoteOn 9, NoteOn 60, NoteOn 2, NoteOn 72, NoteOff 2])
     = Inr [''9'']
   \<and> getNoteNumbers (Some ''treble'') (final [NoteOn 9, NoteOn 60, NoteOn 2, NoteOn 72, NoteOff 2])
     = Inr [''60'', ''72'']
   \<and> toString ` {n. isNoteOn n (final [NoteOn 9, NoteOn 60, NoteOn 2, NoteOn 72, NoteOff 2])}
     = {''60'', ''72'', ''9''}
   \<and> toString ` {n. isNoteOn n (final [NoteOn 9, NoteOn 60, NoteOn 2, NoteOn 72, NoteOff 2])
                    \<and> 60 \<le> n}
     = {''60'', ''72''}"
proof -
  let ?c = "final [NoteOn 9, NoteOn 60, NoteOn 2, NoteOn 72, NoteOff 2]"
  have e1: "getNoteNumbers (Some ''bass'') ?c = Inr [''9'']"
    by code_simp
  have e2: "getNoteNumbers (Some ''treble'') ?c = Inr [''60'', ''72'']"
    by code_simp
  have e3: "getNoteNumbers None ?c = Inr [''60'', ''72'', ''9'']"
    by code_simp
  from clef_lists_partition [of "[NoteOn 9, NoteOn 60, NoteOn 2, NoteOn 72, NoteOff 2]"]
  obtain bass treble every where
    b: "getNoteNumbers (Some ''bass'') ?c = Inr bass" and
    t: "getNoteNumbers (Some ''treble'') ?c = Inr treble" and
    a: "getNoteNumbers None ?c = Inr every" and
    s1: "set every = toString ` {n. isNoteOn n ?c}" and
    s2: "set treble = toString ` {n. isNoteOn n ?c \<and> 60 \<le> n}"
    by (elim exE conjE)
  have "Inr treble = (Inr [''60'', ''72''] :: error + string list)"
    by (rule trans [OF t [symmetric] e2])
  then have treble: "treble = [''60'', ''72'']"
    by (rule Inr_inject)
  have "Inr every = (Inr [''60'', ''72'', ''9''] :: error + string list)"
    by (rule trans [OF a [symmetric] e3])
  then have every: "every = [''60'', ''72'', ''9'']"
    by (rule Inr_inject)
  have w1: "toString ` {n. isNoteOn n ?c} = {''60'', ''72'', ''9''}"
    using s1 [symmetric] unfolding every by (simp only: list.set)
  have w2: "toString ` {n. isNoteOn n ?c \<and> 60 \<le> n} = {''60'', ''72''}"
    using s2 [symmetric] unfolding treble by (simp only: list.set)
  show ?thesis
    by (intro conjI) (rule e1 e2 w1 w2)+
qed

lemma mapNotes_None: "mapNotes f None c = Inr (map f (getSortedNotes c))"
  by (simp add: mapNotes_def mapNotes_loop_unrestricted truthy_def)

text \<open>
  Claim C6. For a note \<open>i\<close> between 0 and 127 that is on, \<^verbatim>\<open>getNotePitches()\<close>
  returns, at the position of the note's key, the pitch class \<open>i mod 12\<close> and the
  octave \<open>i div 12 - 1\<close>.
\<close>

theorem getNotePitches_pitchClass_octave:
  assumes "isNoteOn i c" and "i \<le> 127"
  shows "\<exists>ps. getNotePitches None c = Inr ps
           \<and> length ps = length (getSortedNotes c)
           \<and> (\<exists>j<length ps. getSortedNotes c ! j = toString i
                 \<and> ps ! j = \<lparr>pitchClass = i mod 12, octave = int (i div 12) - 1\<rparr>)"
proof -
  let ?f = "\<lambda>noteNum. \<lparr>pitchClass = toNumber noteNum mod 12,
                         octave = int (toNumber noteNum div 12) - 1\<rparr>"
  let ?ks = "getSortedNotes c"
  have res: "getNotePitches None c = Inr (map ?f ?ks)"
    by (simp add: getNotePitches_def mapNotes_None)
  from assms(1) have "toString i \<in> set ?ks"
    by (auto simp: set_getSortedNotes dest: isNoteOn_key)
  then obtain j where j: "j < length ?ks" "?ks ! j = toString i"
    by (auto simp: in_set_conv_nth)
  then have "map ?f ?ks ! j = \<lparr>pitchClass = i mod 12, octave = int (i div 12) - 1\<rparr>"
    by (simp add: toNumber_toString)
  with res j show ?thesis
    by auto
qed

theorem getNotePitches_pitchClass_octave_witness:
  "isNoteOn 61 (final [NoteOn 61, NoteOn 9]) \<and> (61::nat) \<le> 127
   \<and> (\<exists>ps. getNotePitches None (final [NoteOn 61, NoteOn 9]) = Inr ps
         \<and> length ps = length (getSortedNotes (final [NoteOn 61, NoteOn 9]))
         \<and> (\<exists>j<length ps. getSortedNotes (final [NoteOn 61, NoteOn 9]) ! j = toString 61
               \<and> ps ! j = \<lparr>pitchClass = 61 mod 12, octave = int (61 div 12) - 1\<rparr>))"
proof -
  have h1: "isNoteOn 61 (final [NoteOn 61, NoteOn 9])" by code_simp
  have h2: "(61::nat) \<le> 127" by simp
  from getNotePitches_pitchClass_octave [OF h1 h2] h1 h2 show ?thesis
    by blast
qed

subsection \<open>Invalid clefs\<close>

lemma hasNotes_loop_invalid:
  "truthy clef \<Longrightarrow> clef \<noteq> Some ''treble'' \<Longrightarrow> clef \<noteq> Some ''bass'' \<Longrightarrow> xs \<noteq> [] \<Longrightarrow>
   hasNotes_loop clef xs = Inl (Error ''invalid clef'')"
  by (cases xs) (auto simp: noteNumBelongsToClef_def)

lemma hasNotes_loop_unrestricted: "\<not> truthy clef \<Longrightarrow> hasNotes_loop clef xs = Inr (xs \<noteq> [])"
  by (cases xs) auto

text \<open>
  Claim C5 as stated fails: on a chord without notes the clef \<^verbatim>\<open>'alto'\<close> is not
  rejected; \<^verbatim>\<open>getNotes\<close> and \<^verbatim>\<open>mapNotes\<close> return the empty list and
  \<^verbatim>\<open>hasNotes\<close> returns \<^verbatim>\<open>false\<close>.
\<close>

theorem invalid_clef_empty_chord_counterexample:
  "Some ''alto'' \<noteq> Some ''treble'' \<and> Some ''alto'' \<noteq> Some ''bass''
   \<and> getNotes (Some ''alto'') Chord = Inr []
   \<and> mapNotes (\<lambda>noteNum. noteNum) (Some ''alto'') Chord = Inr []
   \<and> hasNotes (Some ''alto'') Chord = Inr False"
  by code_simp

lemma getSortedNotes_Nil: "getSortedNotes c = [] \<longleftrightarrow> chord_notes c = []"
  using length_getSortedNotes [of c] by (metis length_0_conv)

lemma ownKeys_Nil: "ownKeys c = [] \<longleftrightarrow> chord_notes c = []"
proof -
  have "length (ownKeys c) = length (chord_notes c)"
    by (simp add: ownKeys_def)
  then show ?thesis
    by (metis length_0_conv)
qed

lemma clef_restricted_invalid:
  assumes "clef \<noteq> Some ''treble''" and "clef \<noteq> Some ''bass''"
    and "truthy clef" and "chord_notes c \<noteq> []"
  shows "getNotes clef c = Inl (Error ''invalid clef'')"
    and "mapNotes f clef c = Inl (Error ''invalid clef'')"
    and "hasNotes clef c = Inl (Error ''invalid clef'')"
  using assms
  by (simp_all add: getNotes_def getNoteNumbers_def mapNotes_def hasNotes_def
      mapNotes_loop_invalid hasNotes_loop_invalid getSortedNotes_Nil ownKeys_Nil)

lemma clef_restricted_empty:
  assumes "chord_notes c = []"
  shows "getNotes clef c = Inr []" and "mapNotes f clef c = Inr []"
    and "hasNotes clef c = Inr False"
  using assms
  by (simp_all add: getNotes_def getNoteNumbers_def mapNotes_def hasNotes_def
      getSortedNotes_def ownKeys_def)

lemma clef_unrestricted:
  assumes "\<not> truthy clef"
  shows "getNotes clef c = Inr (getSortedNotes c)"
    and "mapNotes f clef c = Inr (map f (getSortedNotes c))"
    and "hasNotes clef c = Inr (chord_notes c \<noteq> [])"
  using assms
  by (simp_all add: getNotes_def getNoteNumbers_def mapNotes_def hasNotes_def
      mapNotes_loop_unrestricted hasNotes_loop_unrestricted ownKeys_Nil)

lemma noteNumBelongsToClef_invalid:
  "clef \<noteq> Some ''treble'' \<Longrightarrow> clef \<noteq> Some ''bass'' \<Longrightarrow>
   noteNumBelongsToClef n clef = Inl (Error ''invalid clef'')"
  unfolding noteNumBelongsToClef_def by (simp only: if_False)

lemma create_invalid:
  "clef \<noteq> Some ''treble'' \<Longrightarrow> clef \<noteq> Some ''bass'' \<Longrightarrow>
   create clef config =
         Inl (Error (''no such notater for clef: '' @
                (case clef of None \<Rightarrow> ''undefined'' | Some s \<Rightarrow> s)))"
  unfolding create_def by (simp only: if_False)

text \<open>
  Claim C5, amended. For a clef other than \<^verbatim>\<open>'treble'\<close> and \<^verbatim>\<open>'bass'\<close>:
  \<^verbatim>\<open>noteNumBelongsToClef\<close> throws "invalid clef" for every note number; when the
  clef is a non-empty string and the chord holds a note, \<^verbatim>\<open>getNotes\<close>,
  \<^verbatim>\<open>mapNotes\<close> and \<^verbatim>\<open>hasNotes\<close> throw it too; when the chord holds no note they
  return the empty list and \<^verbatim>\<open>false\<close>; when the clef is left out or empty they do
  not filter; and the factory of notaters throws "no such notater for clef".
\<close>

theorem invalid_clef_throws:
  assumes "clef \<noteq> Some ''treble''" and "clef \<noteq> Some ''bass''"
  shows "noteNumBelongsToClef n clef = Inl (Error ''invalid clef'')
    \<and> (truthy clef \<and> chord_notes c \<noteq> [] \<longrightarrow>
           getNotes clef c = Inl (Error ''invalid clef'')
           \<and> mapNotes f clef c = Inl (Error ''invalid clef'')
           \<and> hasNotes clef c = Inl (Error ''invalid clef''))
    \<and> (truthy clef \<and> chord_notes c = [] \<longrightarrow>
           getNotes clef c = Inr [] \<and> mapNotes f clef c = Inr []
           \<and> hasNotes clef c = Inr False)
    \<and> (\<not> truthy clef \<longrightarrow>
           getNotes clef c = Inr (getSortedNotes c)
           \<and> mapNotes f clef c = Inr (map f (getSortedNotes c))
           \<and> hasNotes clef c = Inr (chord_notes c \<noteq> []))
    \<and> create clef config =
         Inl (Error (''no such notater for clef: '' @
                (case clef of None \<Rightarrow> ''undefined'' | Some s \<Rightarrow> s)))"
proof (intro conjI impI)
  show "noteNumBelongsToClef n clef = Inl (Error ''invalid clef'')"
    using assms by (rule noteNumBelongsToClef_invalid)
  show "create clef config =
         Inl (Error (''no such notater for clef: '' @
                (case clef of None \<Rightarrow> ''undefined'' | Some s \<Rightarrow> s)))"
    using assms by (rule create_invalid)
next
  assume a: "truthy clef \<and> chord_notes c \<noteq> []"
  then have t: "truthy clef" and ne: "chord_notes c \<noteq> []"
    by (rule conjunct1, rule conjunct2)
  show "getNotes clef c = Inl (Error ''invalid clef'')"
    by (rule clef_restricted_invalid(1) [OF assms t ne])
  show "mapNotes f clef c = Inl (Error ''invalid clef'')"
    by (rule clef_restricted_invalid(2) [OF assms t ne])
  show "hasNotes clef c = Inl (Error ''invalid clef'')"
    by (rule clef_restricted_invalid(3) [OF assms t ne])
next
  assume a: "truthy clef \<and> chord_notes c = []"
  then have e: "chord_notes c = []"
    by (rule conjunct2)
  show "getNotes clef c = Inr []"
    by (rule clef_restricted_empty(1) [OF e])
  show "mapNotes f clef c = Inr []"
    by (rule clef_restricted_empty(2) [OF e])
  show "hasNotes clef c = Inr False"
    by (rule clef_restricted_empty(3) [OF e])
next
  assume u: "\<not> truthy clef"
  show "getNotes clef c = Inr (getSortedNotes c)"
    by (rule clef_unrestricted(1) [OF u])
  show "mapNotes f clef c = Inr (map f (getSortedNotes c))"
    by (rule clef_unrestricted(2) [OF u])
  show "hasNotes clef c = Inr (chord_notes c \<noteq> [])"
    by (rule clef_unrestricted(3) [OF u])
qed

theorem invalid_clef_throws_witness:
  "Some ''alto'' \<noteq> Some ''treble'' \<and> Some ''alto'' \<noteq> Some ''bass''
   \<and> truthy (Some ''alto'') \<and> chord_notes (final [NoteOn 62]) \<noteq> []
   \<and> noteNumBelongsToClef 62 (Some ''alto'') = Inl (Error ''invalid clef'')
   \<and> getNotes (Some ''alto'') (final [NoteOn 62]) = Inl (Error ''invalid clef'')
   \<and> mapNotes toNumber (Some ''alto'') (final [NoteOn 62]) = Inl (Error ''invalid clef'')
   \<and> hasNotes (Some ''alto'') (final [NoteOn 62]) = Inl (Error ''invalid clef'')
   \<and> create (Some ''alto'')
        \<lparr>config_stave = None, config_keySignature = Some (), config_analyzeConfig = None,
         config_chord = None\<rparr>
      = Inl (Error ''no such notater for clef: alto'')"
proof -
  have h1: "Some ''alto'' \<noteq> Some ''treble''" and h2: "Some ''alto'' \<noteq> Some ''bass''"
    by simp_all
  have h3: "truthy (Some ''alto'')"
    by (simp add: truthy_def)
  have h4: "chord_notes (final [NoteOn 62]) \<noteq> []"
    by code_simp
  note w = invalid_clef_throws [OF h1 h2, of 62 "final [NoteOn 62]" toNumber
      "\<lparr>config_stave = None, config_keySignature = Some (), config_analyzeConfig = None,
         config_chord = None\<rparr>"]
  from w have w1: "noteNumBelongsToClef 62 (Some ''alto'') = Inl (Error ''invalid clef'')"
    by (rule conjunct1)
  from w h3 h4 have w2: "getNotes (Some ''alto'') (final [NoteOn 62]) = Inl (Error ''invalid clef'')"
    and w3: "mapNotes toNumber (Some ''alto'') (final [NoteOn 62]) = Inl (Error ''invalid clef'')"
    and w4: "hasNotes (Some ''alto'') (final [NoteOn 62]) = Inl (Error ''invalid clef'')"
    by blast+
  from w have w5: "create (Some ''alto'')
        \<lparr>config_stave = None, config_keySignature = Some (), config_analyzeConfig = None,
         config_chord = None\<rparr>
      = Inl (Error ''no such notater for clef: alto'')"
    by simp
  show ?thesis
    by (intro conjI) (rule h1 h2 h3 h4 w1 w2 w3 w4 w5)+
qed

section \<open>Properties of the notater\<close>

subsection \<open>Annotations and the number of notes\<close>

lemma length_getSortedNotes_final:
  "length (getSortedNotes (final cmds)) = card {i. isNoteOn i (final cmds)}"
proof -
  have "distinct (map fst (chord_notes (final cmds)))"
    using wf_notes_final [of cmds] by (simp add: wf_notes_def)
  then have "card (set (map fst (chord_notes (final cmds)))) = length (chord_notes (final cmds))"
    using distinct_card [of "map fst (chord_notes (final cmds))"] by simp
  then show ?thesis
    using keys_final [of cmds] by (simp add: length_getSortedNotes)
qed

lemma treble_notateChord_arity:
  assumes "chord n = Some c" and "treble_notateChord n = Inr calls" and "d \<in> set calls"
  shows "annotation_arity d (length (getSortedNotes c))"
  using assms
  by (auto simp: treble_notateChord_def Let_def getNoteNumbers_None split: if_splits)

lemma bass_notateChord_arity:
  assumes "chord n = Some c" and "bass_notateChord n = Inr calls" and "d \<in> set calls"
  shows "annotation_arity d (length (getSortedNotes c))"
  using assms
  by (auto simp: bass_notateChord_def Let_def getNoteNumbers_None split: if_splits)

lemma notateChord_arity:
  assumes "chord n = Some c" and "notateChord n = Inr calls" and "d \<in> set calls"
  shows "annotation_arity d (length (getSortedNotes c))"
proof (cases "proto n")
  case TrebleStaveNotater
  with assms(2) have t: "treble_notateChord n = Inr calls"
    by (simp add: notateChord_def)
  show ?thesis
    by (rule treble_notateChord_arity [OF assms(1) t assms(3)])
next
  case BassStaveNotater
  with assms(2) have b: "bass_notateChord n = Inr calls"
    by (simp add: notateChord_def)
  show ?thesis
    by (rule bass_notateChord_arity [OF assms(1) b assms(3)])
qed

lemma notateStave_arity: "d \<in> set (notateStave n) \<Longrightarrow> annotation_arity d k"
  by (auto simp: notateStave_def Let_def split: if_splits notater_class.splits)

lemma notate_arity:
  assumes "chord n = Some c" and "notate n = Inr calls" and "d \<in> set calls"
  shows "annotation_arity d (length (getSortedNotes c))"
proof (cases "isAnalyzerEnabled n")
  case False
  with assms(2) have "calls = notateStave n"
    by (simp add: notate_def Let_def)
  with assms(3) show ?thesis
    by (simp add: notateStave_arity)
next
  case True
  with assms(1,2) obtain ds where ds: "notateChord n = Inr ds" "calls = notateStave n @ ds"
    by (auto simp: notate_def Let_def split: sum.splits)
  with assms(3) consider "d \<in> set (notateStave n)" | "d \<in> set ds"
    by auto
  then show ?thesis
  proof cases
    case 1
    then show ?thesis by (rule notateStave_arity)
  next
    case 2
    show ?thesis by (rule notateChord_arity [OF assms(1) ds(1) 2])
  qed
qed

text \<open>
  Claim C7. When a notater for a chord reached by commands draws (by \<^verbatim>\<open>notateChord\<close>
  alone or in a run of \<^verbatim>\<open>notate\<close>), every annotation drawn fits the number of notes
  that are on: scale degree, solf\`ege, note name and Helmholtz name only with one note,
  an interval only with two, a Roman numeral only with more than two.
\<close>

theorem annotations_fit_number_of_notes:
  assumes "chord n = Some (final cmds)"
    and "notateChord n = Inr calls \<or> notate n = Inr calls"
    and "d \<in> set calls"
  shows "annotation_arity d (card {i. isNoteOn i (final cmds)})"
proof -
  have "annotation_arity d (length (getSortedNotes (final cmds)))"
    using assms(2)
  proof
    assume a: "notateChord n = Inr calls"
    show ?thesis by (rule notateChord_arity [OF assms(1) a assms(3)])
  next
    assume a: "notate n = Inr calls"
    show ?thesis by (rule notate_arity [OF assms(1) a assms(3)])
  qed
  then show ?thesis
    by (simp only: length_getSortedNotes_final)
qed

theorem annotations_fit_number_of_notes_witness:
  "chord (example_notater TrebleStaveNotater [NoteOn 60]) = Some (final [NoteOn 60])
   \<and> notateChord (example_notater TrebleStaveNotater [NoteOn 60])
        = Inr [drawScaleDegree 15 15, drawHelmholtz 15 40]
   \<and> drawScaleDegree 15 15 \<in> set [drawScaleDegree 15 15, drawHelmholtz 15 40]
   \<and> annotation_arity (drawScaleDegree 15 15) (card {i. isNoteOn i (final [NoteOn 60])})
   \<and> card {i. isNoteOn i (final [NoteOn 60])} = 1"
proof -
  have h1: "chord (example_notater TrebleStaveNotater [NoteOn 60]) = Some (final [NoteOn 60])"
    by (simp add: example_notater_def)
  have h2: "notateChord (example_notater TrebleStaveNotater [NoteOn 60])
        = Inr [drawScaleDegree 15 15, drawHelmholtz 15 40]"
    by code_simp
  have h3: "drawScaleDegree 15 15 \<in> set [drawScaleDegree 15 15, drawHelmholtz 15 40]"
    by simp
  have w: "annotation_arity (drawScaleDegree 15 15) (card {i. isNoteOn i (final [NoteOn 60])})"
    by (rule annotations_fit_number_of_notes [OF h1 disjI1 [OF h2] h3])
  then have "card {i. isNoteOn i (final [NoteOn 60])} = 1"
    by simp
  with h1 h2 h3 w show ?thesis
    by blast
qed

section \<open>Properties of the configuration\<close>

subsection \<open>Lookups in the configuration\<close>

lemma get_each_found:
  "path_value st v segs = Some r \<Longrightarrow> get_each st key segs v = Inr r"
  by (induction st v segs rule: path_value.induct) (auto split: option.splits)

lemma get_each_missing:
  "path_value st v segs = None \<Longrightarrow>
   get_each st key segs v = Inl TypeError
   \<or> get_each st key segs v = Inl (Error (''Key not found: '' @ key))"
  by (induction st v segs rule: path_value.induct) (auto split: option.splits)

text \<open>
  Claim C8. A string key whose path leaves the stored configuration makes
  \<^verbatim>\<open>Config.get\<close> throw ("Key not found", or a TypeError when the path runs into
  \<^verbatim>\<open>undefined\<close>), never return a value; a key whose whole path exists gives the value
  stored there; a key that is not a string makes it throw.
\<close>

theorem get_fails_loudly:
  "(path_value (objects this) (private_config this) (split_dot k) = None \<longrightarrow>
      fst (get (StringKey k) this) = Inl TypeError
      \<or> fst (get (StringKey k) this) = Inl (Error (''Key not found: '' @ k)))
   \<and> (path_value (objects this) (private_config this) (split_dot k) = Some v \<longrightarrow>
      fst (get (StringKey k) this) = Inr v)
   \<and> fst (get (OtherKey txt) this) = Inl (Error (''Config key must be a string: '' @ txt))"
  using get_each_found [of "objects this" "private_config this" "split_dot k" v k]
    get_each_missing [of "objects this" "private_config this" "split_dot k" k]
  by (simp add: get_def)

theorem get_fails_loudly_witness:
  "path_value (objects example_config) (private_config example_config)
       (split_dot ''general.tempo'') = None
   \<and> fst (get (StringKey ''general.tempo'') example_config)
       = Inl (Error ''Key not found: general.tempo'')
   \<and> path_value (objects example_config) (private_config example_config)
       (split_dot ''general.analysisSettings.enabled'') = Some (Prim True)
   \<and> fst (get (StringKey ''general.analysisSettings.enabled'') example_config)
       = Inr (Prim True)"
proof -
  have h1: "path_value (objects example_config) (private_config example_config)
       (split_dot ''general.tempo'') = None"
    by code_simp
  have h2: "path_value (objects example_config) (private_config example_config)
      (split_dot ''general.analysisSettings.enabled'') = Some (Prim True)"
    by code_simp
  have n: "fst (get (StringKey ''general.tempo'') example_config) \<noteq> Inl TypeError"
    by code_simp
  from get_fails_loudly [of example_config "''general.tempo''"] h1 n
  have w1: "fst (get (StringKey ''general.tempo'') example_config)
       = Inl (Error ''Key not found: general.tempo'')"
    by simp
  from get_fails_loudly [of example_config "''general.analysisSettings.enabled''" "Prim True"] h2
  have w2: "fst (get (StringKey ''general.analysisSettings.enabled'') example_config)
       = Inr (Prim True)"
    by blast
  show ?thesis
    by (intro conjI) (rule h1 h2 w1 w2)+
qed

subsection \<open>Reads, writes and the stored objects\<close>











section \<open>Properties of the piano key\<close>

subsection \<open>The state of a piano key\<close>














subsection \<open>The mouse handlers\<close>











subsection \<open>Steps and runs of a key\<close>





















end
